theory Spec2Isabelle
  imports Complex_Main
begin

section \<open>The parking ledger (db\_manager.py)\<close>

text \<open>
  The table \<open>parking_log\<close> is a list of rows. Text columns that hold timestamps are
  modelled by what the two parsers of the source make of them:
  \<^item> \<open>Std t\<close>: a text in the format \<open>%Y-%m-%d %H:%M:%S\<close>, denoting second \<open>t\<close>;
  \<^item> \<open>Iso u\<close>: a text that \<open>strptime\<close> rejects and \<open>datetime.fromisoformat\<close> accepts,
    denoting microsecond \<open>u\<close>;
  \<^item> \<open>Bad\<close>: anything else (NULL, malformed text): parsing raises.

  Time is counted in microseconds, the resolution of \<open>datetime.now()\<close>;
  \<open>strftime\<close> of the source drops the microseconds.
\<close>

datatype stamp = Std int | Iso int | Bad

datatype status_t = IN | OUT

record row =
  row_id :: nat
  plate :: string
  entry_time :: stamp
  exit_time :: "stamp option"
  duration_min :: "int option"
  amount :: "int option"
  status :: status_t
  slot :: "string option"

type_synonym ledger = "row list"

definition RATE_PER_MIN :: int where
  "RATE_PER_MIN = 1"

definition TOTAL_SLOTS :: nat where
  "TOTAL_SLOTS = 15"

text \<open>Python's \<open>str\<close> of a natural number, for the f-string \<open>f"A{i}"\<close>.\<close>

function str_nat :: "nat \<Rightarrow> string" where
  "str_nat n = (if n < 10 then [''0123456789'' ! n]
                else str_nat (n div 10) @ [''0123456789'' ! (n mod 10)])"
  by pat_completeness auto
termination
  by (relation "measure (\<lambda>n. n)") auto

definition str_int :: "int \<Rightarrow> string" where
  "str_int i = (if i < 0 then CHR ''-'' # str_nat (nat (- i)) else str_nat (nat i))"

definition SLOT_LABELS :: "string list" where
  "SLOT_LABELS = map (\<lambda>i. ''A'' @ str_nat i) [1 ..< TOTAL_SLOTS + 1]"

subsection \<open>The environment of one call\<close>

text \<open>
  What a call reads from outside the ledger: the outcome of each connection probe of
  \<open>wait_for_db_unlock\<close> (by attempt number), whether sqlite raises inside the
  \<open>try\<close> block of the operation, the clock, and whether the QR library raises.
\<close>

datatype probe = Unlocked | Locked | Broken

record env =
  probes :: "nat \<Rightarrow> probe"
  store_raises :: bool
  now :: int
  qr_raises :: bool

datatype exn = OperationalError

text \<open>
  \<open>wait_for_db_unlock\<close>: the loop \<open>for attempt in range(max_retries)\<close>, from attempt
  \<open>i\<close> with \<open>n\<close> iterations left. The second component is the number of
  \<open>time.sleep(wait_time)\<close> calls made.
\<close>

fun probe_loop :: "(nat \<Rightarrow> probe) \<Rightarrow> nat \<Rightarrow> nat \<Rightarrow> (exn + bool) \<times> nat" where
  "probe_loop pr i 0 = (Inr False, 0)"
| "probe_loop pr i (Suc n) =
     (case pr i of
        Unlocked \<Rightarrow> (Inr True, 0)
      | Locked \<Rightarrow> (case probe_loop pr (Suc i) n of (r, s) \<Rightarrow> (r, Suc s))
      | Broken \<Rightarrow> (Inl OperationalError, 0))"

definition wait_for_db_unlock_n :: "nat \<Rightarrow> env \<Rightarrow> (exn + bool) \<times> nat" where
  "wait_for_db_unlock_n max_retries e = probe_loop (probes e) 0 max_retries"

text \<open>The default arguments \<open>max_retries=5, wait_time=0.5\<close>, as every caller uses them.\<close>

definition wait_for_db_unlock :: "env \<Rightarrow> (exn + bool) \<times> nat" where
  "wait_for_db_unlock e = wait_for_db_unlock_n 5 e"

definition wait_time_ms :: nat where
  "wait_time_ms = 500"

subsection \<open>Slot accounting\<close>

definition truthy :: "string option \<Rightarrow> bool" where
  "truthy s = (case s of None \<Rightarrow> False | Some t \<Rightarrow> t \<noteq> [])"

definition get_occupied_slots :: "ledger \<Rightarrow> string set" where
  "get_occupied_slots L =
     set (map (\<lambda>r. the (slot r)) (filter (\<lambda>r. truthy (slot r)) (filter (\<lambda>r. status r = IN) L)))"

fun first_free :: "string set \<Rightarrow> string list \<Rightarrow> string option" where
  "first_free occupied [] = None"
| "first_free occupied (label # labels) =
     (if label \<notin> occupied then Some label else first_free occupied labels)"

definition find_next_available_slot :: "ledger \<Rightarrow> string option" where
  "find_next_available_slot L = first_free (get_occupied_slots L) SLOT_LABELS"

text \<open>
  \<open>fetch_current_slots\<close>: the dict \<open>{label: None for label in SLOT_LABELS}\<close>, then one
  assignment per IN row whose slot is a key. The dict is an association list in the
  order of \<open>SLOT_LABELS\<close>.
\<close>

fun assign_slots :: "(string \<times> string option) list \<Rightarrow> row list \<Rightarrow> (string \<times> string option) list" where
  "assign_slots slots [] = slots"
| "assign_slots slots (r # rs) =
     assign_slots
       (case slot r of
          None \<Rightarrow> slots
        | Some s \<Rightarrow> if s \<in> fst ` set slots
                    then map (\<lambda>(k, v). if k = s then (k, Some (plate r)) else (k, v)) slots
                    else slots)
       rs"

definition fetch_current_slots :: "ledger \<Rightarrow> (string \<times> string option) list" where
  "fetch_current_slots L =
     assign_slots (map (\<lambda>label. (label, None)) SLOT_LABELS) (filter (\<lambda>r. status r = IN) L)"

subsection \<open>Billing\<close>

text \<open>
  \<open>math.ceil(x / 60)\<close> for a duration of \<open>d\<close> microseconds, in integer arithmetic:
  the ceiling of \<open>d / 60000000\<close>.
\<close>

definition ceil_div :: "int \<Rightarrow> int \<Rightarrow> int" where
  "ceil_div a b = - ((- a) div b)"

definition duration_of :: "int \<Rightarrow> int \<Rightarrow> int" where
  "duration_of entry_us exit_us = max 1 (ceil_div (exit_us - entry_us) 60000000)"

definition amount_of :: "int \<Rightarrow> int" where
  "amount_of duration = duration * RATE_PER_MIN"

definition strftime :: "int \<Rightarrow> stamp" where
  "strftime us = Std (us div 1000000)"

subsection \<open>Queries\<close>

text \<open>\<open>SELECT * FROM parking_log WHERE plate=? AND status='IN'\<close>\<close>

definition in_rows :: "ledger \<Rightarrow> string \<Rightarrow> row list" where
  "in_rows L p = filter (\<lambda>r. plate r = p \<and> status r = IN) L"

text \<open>\<open>... ORDER BY id DESC LIMIT 1\<close>, then \<open>fetchone()\<close>\<close>

definition latest_in :: "ledger \<Rightarrow> string \<Rightarrow> row option" where
  "latest_in L p = (case rev (sort_key row_id (in_rows L p)) of [] \<Rightarrow> None | r # _ \<Rightarrow> Some r)"

text \<open>
  The id of an inserted row (\<open>INTEGER PRIMARY KEY AUTOINCREMENT\<close>): one more than the
  largest id used so far. No operation deletes a row, so that is the largest id in the table.
\<close>

definition next_id :: "ledger \<Rightarrow> nat" where
  "next_id L = Suc (fold max (map row_id L) 0)"

subsection \<open>The state on disk\<close>

text \<open>
  The sqlite file and the directory \<open>IMAGES/\<close>, where \<open>generate_upi_qr\<close> writes one
  picture per plate; a picture is represented by the UPI URL it encodes.
\<close>

record disk =
  table :: ledger
  images :: "string \<rightharpoonup> string"

subsection \<open>log\_entry\<close>

definition new_row :: "ledger \<Rightarrow> string \<Rightarrow> int \<Rightarrow> string \<Rightarrow> row" where
  "new_row L p t s =
     \<lparr> row_id = next_id L, plate = p, entry_time = strftime t, exit_time = None,
       duration_min = None, amount = None, status = IN, slot = Some s \<rparr>"

definition log_entry :: "env \<Rightarrow> string \<Rightarrow> disk \<Rightarrow> (exn + string) \<times> disk" where
  "log_entry e p d =
     (case fst (wait_for_db_unlock e) of
        Inl x \<Rightarrow> (Inl x, d)
      | Inr False \<Rightarrow> (Inr ''db_locked'', d)
      | Inr True \<Rightarrow>
          if store_raises e then (Inr ''db_error'', d)
          else if in_rows (table d) p \<noteq> [] then (Inr ''already_in'', d)
          else (case find_next_available_slot (table d) of
                  None \<Rightarrow> (Inr ''full'', d)
                | Some s \<Rightarrow>
                    (Inr ''entry_logged'',
                     d\<lparr>table := table d @ [new_row (table d) p (now e) s]\<rparr>)))"

subsection \<open>log\_exit\<close>

definition generate_upi_qr_url :: "int \<Rightarrow> string \<Rightarrow> string" where
  "generate_upi_qr_url amt p =
     ''upi://pay?pa=dubeysagar744@oksbi&pn=ParkingLot&am='' @ str_int amt @ ''&cu=INR&tn='' @ p"

definition qr_filename :: "string \<Rightarrow> string" where
  "qr_filename p = ''IMAGES/upi_qr_'' @ p @ ''.png''"

record quote =
  q_plate :: string
  q_entry_time :: stamp
  q_exit_time :: stamp
  q_duration_min :: int
  q_amount :: int
  q_qr_path :: string
  q_slot :: string

datatype exit_result = Info quote | Err string

text \<open>
  The entry time as \<open>log_exit\<close> reads it: \<open>strptime\<close>, and on \<open>ValueError\<close>
  \<open>fromisoformat\<close>; \<open>None\<close> where both raise.
\<close>

definition parse_entry_exit :: "stamp \<Rightarrow> int option" where
  "parse_entry_exit t = (case t of Std s \<Rightarrow> Some (s * 1000000) | Iso u \<Rightarrow> Some u | Bad \<Rightarrow> None)"

definition log_exit :: "env \<Rightarrow> string \<Rightarrow> disk \<Rightarrow> (exn + exit_result) \<times> disk" where
  "log_exit e p d =
     (case fst (wait_for_db_unlock e) of
        Inl x \<Rightarrow> (Inl x, d)
      | Inr False \<Rightarrow> (Inr (Err ''db_locked''), d)
      | Inr True \<Rightarrow>
          if store_raises e then (Inr (Err ''db_error''), d)
          else (case latest_in (table d) p of
                  None \<Rightarrow> (Inr (Err ''not_found''), d)
                | Some r \<Rightarrow>
                    (case parse_entry_exit (entry_time r) of
                       None \<Rightarrow> (Inr (Err ''db_error''), d)
                     | Some t \<Rightarrow>
                         let duration = duration_of t (now e);
                             amt = amount_of duration
                         in if qr_raises e then (Inr (Err ''qr_error''), d)
                            else (Inr (Info \<lparr> q_plate = p, q_entry_time = entry_time r,
                                              q_exit_time = strftime (now e),
                                              q_duration_min = duration, q_amount = amt,
                                              q_qr_path = qr_filename p,
                                              q_slot = (if truthy (slot r) then the (slot r)
                                                        else ''Unknown'') \<rparr>),
                                  d\<lparr>images := (images d)(qr_filename p \<mapsto>
                                                   generate_upi_qr_url amt p)\<rparr>))))"

subsection \<open>confirm\_payment\_and\_exit\<close>

text \<open>The entry time as \<open>confirm_payment_and_exit\<close> reads it: \<open>strptime\<close> only.\<close>

definition parse_entry_confirm :: "stamp \<Rightarrow> int option" where
  "parse_entry_confirm t = (case t of Std s \<Rightarrow> Some (s * 1000000) | _ \<Rightarrow> None)"

text \<open>\<open>UPDATE parking_log SET exit_time=?, duration_min=?, amount=?, status='OUT' WHERE id=?\<close>\<close>

definition close_row :: "nat \<Rightarrow> stamp \<Rightarrow> int \<Rightarrow> int \<Rightarrow> ledger \<Rightarrow> ledger" where
  "close_row i x dur amt L =
     map (\<lambda>r. if row_id r = i
               then r\<lparr>exit_time := Some x, duration_min := Some dur, amount := Some amt,
                      status := OUT\<rparr>
               else r) L"

text \<open>\<open>UPDATE parking_log SET status='OUT' WHERE id=?\<close>\<close>

definition force_out :: "nat \<Rightarrow> ledger \<Rightarrow> ledger" where
  "force_out i L = map (\<lambda>r. if row_id r = i then r\<lparr>status := OUT\<rparr> else r) L"

definition confirm_payment_and_exit :: "env \<Rightarrow> string \<Rightarrow> disk \<Rightarrow> (exn + bool) \<times> disk" where
  "confirm_payment_and_exit e p d =
     (case fst (wait_for_db_unlock e) of
        Inl x \<Rightarrow> (Inl x, d)
      | Inr False \<Rightarrow> (Inr False, d)
      | Inr True \<Rightarrow>
          if store_raises e then (Inr False, d)
          else (case latest_in (table d) p of
                  None \<Rightarrow> (Inr False, d)
                | Some r \<Rightarrow>
                    (case exit_time r of
                       None \<Rightarrow>
                         (case parse_entry_confirm (entry_time r) of
                            None \<Rightarrow> (Inr False, d)
                          | Some t \<Rightarrow>
                              let duration = duration_of t (now e);
                                  amt = amount_of duration
                              in (Inr True,
                                  d\<lparr>table := close_row (row_id r) (strftime (now e))
                                                       duration amt (table d)\<rparr>))
                     | Some _ \<Rightarrow> (Inr True, d\<lparr>table := force_out (row_id r) (table d)\<rparr>))))"

section \<open>The web process (app.py)\<close>

text \<open>
  Events sent with \<open>socketio.emit\<close>, with their payloads, and the state of the process:
  the disk, the global \<open>pending_exit_plate\<close> and the events emitted so far, oldest first.
\<close>

type_synonym log_tuple =
  "string \<times> stamp \<times> stamp option \<times> int option \<times> int option \<times> status_t \<times> string option"

record detection =
  d_plate :: "string option"
  d_status :: "string option"
  d_amount :: "int option"
  d_duration :: "int option"
  d_entry_time :: "string option"
  d_exit_time :: "string option"

datatype event =
    Open_exit_gate string
  | Payment_confirmed string
  | Logs_update "log_tuple list"
  | Slots_update "(string \<times> string option) list"
  | Pending_exit string
  | Plate_detected detection

record app_state =
  store :: disk
  pending_exit_plate :: "string option"
  outbox :: "event list"

datatype reply =
    Success
  | Success_pending string
  | Failure string
  | Pending "string option"
  | Exit_info quote
  | Text string
  | Unhandled exn

type_synonym response = "reply \<times> nat"

definition emit :: "event \<Rightarrow> app_state \<Rightarrow> app_state" where
  "emit ev a = a\<lparr>outbox := outbox a @ [ev]\<rparr>"

text \<open>\<open>SELECT plate, entry_time, ... FROM parking_log ORDER BY id DESC\<close>\<close>

definition fetch_all_logs :: "ledger \<Rightarrow> log_tuple list" where
  "fetch_all_logs L =
     map (\<lambda>r. (plate r, entry_time r, exit_time r, duration_min r, amount r, status r, slot r))
         (rev (sort_key row_id L))"

definition broadcast_logs_update :: "app_state \<Rightarrow> app_state" where
  "broadcast_logs_update a = emit (Logs_update (fetch_all_logs (table (store a)))) a"

definition broadcast_slots_update :: "app_state \<Rightarrow> app_state" where
  "broadcast_slots_update a = emit (Slots_update (fetch_current_slots (table (store a)))) a"

text \<open>\<open>if not plate\<close>: the key is missing, null or the empty string.\<close>

definition api_confirm_exit :: "env \<Rightarrow> string option \<Rightarrow> app_state \<Rightarrow> response \<times> app_state" where
  "api_confirm_exit e req a =
     (if \<not> truthy req then ((Failure ''No plate provided'', 400), a)
      else let p = the req in
        (case confirm_payment_and_exit e p (store a) of
           (Inl x, d) \<Rightarrow> ((Unhandled x, 500), a\<lparr>store := d\<rparr>)
         | (Inr False, d) \<Rightarrow> ((Failure ''Could not confirm exit'', 500), a\<lparr>store := d\<rparr>)
         | (Inr True, d) \<Rightarrow>
             let a1 = a\<lparr>store := d\<rparr>;
                 a2 = (if pending_exit_plate a1 = Some p
                       then a1\<lparr>pending_exit_plate := None\<rparr> else a1);
                 a3 = emit (Open_exit_gate p) a2;
                 a4 = emit (Payment_confirmed p) a3;
                 a5 = broadcast_logs_update a4;
                 a6 = broadcast_slots_update a5
             in ((Success, 200), a6)))"

text \<open>
  The SMS webhook. The request is its form field \<open>token\<close> and what
  \<open>re.search(r'INR (\d+\.\d{2}) received.*Ref:.*?([A-Z0-9]+)', sms_text)\<close> finds in the
  field \<open>message\<close>: the second group (the plate) when there is a match. The configured
  token \<open>TRACCAR_TOKEN\<close> is a parameter. \<open>abort(403)\<close> raises inside the \<open>try\<close>
  block, whose handler answers 500.
\<close>

record sms_request =
  token :: "string option"
  ref_plate :: "string option"

definition sms_webhook :: "string \<Rightarrow> env \<Rightarrow> sms_request \<Rightarrow> app_state \<Rightarrow> response \<times> app_state" where
  "sms_webhook traccar_token e req a =
     (if token req \<noteq> Some traccar_token then ((Text ''Internal error'', 500), a)
      else (case ref_plate req of
              None \<Rightarrow> ((Text ''No match'', 200), a)
            | Some p \<Rightarrow>
                (case confirm_payment_and_exit e p (store a) of
                   (Inl x, d) \<Rightarrow> ((Text ''Internal error'', 500), a\<lparr>store := d\<rparr>)
                 | (Inr True, d) \<Rightarrow> ((Text ''Payment confirmed, exit allowed'', 200), a\<lparr>store := d\<rparr>)
                 | (Inr False, d) \<Rightarrow>
                     ((Text ''Payment received but not matched: False'', 200), a\<lparr>store := d\<rparr>))))"

definition api_exit_info :: "env \<Rightarrow> string \<Rightarrow> app_state \<Rightarrow> response \<times> app_state" where
  "api_exit_info e p a =
     (case log_exit e p (store a) of
        (Inl x, d) \<Rightarrow> ((Unhandled x, 500), a\<lparr>store := d\<rparr>)
      | (Inr (Info q), d) \<Rightarrow> ((Exit_info q, 200), a\<lparr>store := d\<rparr>)
      | (Inr (Err msg), d) \<Rightarrow> ((Failure msg, 400), a\<lparr>store := d\<rparr>))"

definition plate_detected :: "detection \<Rightarrow> app_state \<Rightarrow> response \<times> app_state" where
  "plate_detected req a =
     (if \<not> truthy (d_plate req) \<or> \<not> truthy (d_status req)
      then ((Failure ''Missing required fields'', 400), a)
      else let a1 = emit (Plate_detected req) a;
               a2 = (if d_status req = Some ''entry_logged''
                     then broadcast_slots_update (broadcast_logs_update a1) else a1)
           in ((Success, 200), a2))"

definition set_pending_exit :: "string \<Rightarrow> app_state \<Rightarrow> response \<times> app_state" where
  "set_pending_exit p a =
     ((Success_pending p, 200), emit (Pending_exit p) (a\<lparr>pending_exit_plate := Some p\<rparr>))"

definition get_pending_exit :: "app_state \<Rightarrow> response \<times> app_state" where
  "get_pending_exit a = ((Pending (pending_exit_plate a), 200), a)"

text \<open>The handler of a new socket connection sends the current logs and slots.\<close>

definition handle_connect :: "app_state \<Rightarrow> app_state" where
  "handle_connect a =
     emit (Slots_update (fetch_current_slots (table (store a))))
       (emit (Logs_update (fetch_all_logs (table (store a)))) a)"

text \<open>The requests that write to the disk, to the pending plate or to the socket.\<close>

datatype request =
    Sms_webhook sms_request
  | Exit_page string
  | Api_exit_info string
  | Api_confirm_exit "string option"
  | Plate_detected_req detection
  | Set_pending_exit string
  | Get_pending_exit
  | Connect

fun serve :: "string \<Rightarrow> env \<Rightarrow> request \<Rightarrow> app_state \<Rightarrow> app_state" where
  "serve tk e (Sms_webhook r) a = snd (sms_webhook tk e r a)"
| "serve tk e (Exit_page p) a = snd (api_exit_info e p a)"
| "serve tk e (Api_exit_info p) a = snd (api_exit_info e p a)"
| "serve tk e (Api_confirm_exit r) a = snd (api_confirm_exit e r a)"
| "serve tk e (Plate_detected_req r) a = snd (plate_detected r a)"
| "serve tk e (Set_pending_exit p) a = snd (set_pending_exit p a)"
| "serve tk e Get_pending_exit a = snd (get_pending_exit a)"
| "serve tk e Connect a = handle_connect a"

section \<open>The gate handler of the camera process (nesm.py)\<close>

text \<open>
  \<open>_on_open_exit_gate\<close>: what is sent on the serial line, and the pause, when the
  Arduino is connected; nothing otherwise.
\<close>

datatype hw_action = Serial string | Sleep nat

definition on_open_exit_gate :: "bool \<Rightarrow> hw_action list" where
  "on_open_exit_gate is_connected =
     (if is_connected then [Serial ''OPEN_EXIT'', Sleep 3, Serial ''CLOSE_EXIT''] else [])"

section \<open>Reference formulas and example data\<close>


text \<open>An environment in which the store answers at once and nothing raises.\<close>

definition calm :: "int \<Rightarrow> env" where
  "calm t = \<lparr> probes = (\<lambda>_. Unlocked), store_raises = False, now = t, qr_raises = False \<rparr>"

text \<open>A row as \<open>log_entry\<close> writes it, and a ledger with two parked cars.\<close>

definition parked :: "nat \<Rightarrow> string \<Rightarrow> int \<Rightarrow> string option \<Rightarrow> row" where
  "parked i p t s =
     \<lparr> row_id = i, plate = p, entry_time = Std t, exit_time = None, duration_min = None,
       amount = None, status = IN, slot = s \<rparr>"

definition two_cars :: ledger where
  "two_cars = [parked 1 ''MH12AB1234'' 1000 (Some ''A1''), parked 2 ''KA01XY9999'' 1060 (Some ''A2'')]"

definition lot :: disk where
  "lot = \<lparr> table = two_cars, images = Map.empty \<rparr>"

definition ab_cars :: ledger where
  "ab_cars = [parked 1 ''A'' 1000 (Some ''A1''), parked 2 ''B'' 1060 (Some ''A2'')]"

definition kiosk :: app_state where
  "kiosk = \<lparr> store = \<lparr> table = ab_cars, images = Map.empty \<rparr>,
             pending_exit_plate = None, outbox = [] \<rparr>"

definition healthy :: "env \<Rightarrow> bool" where
  "healthy e = (fst (wait_for_db_unlock e) = Inr True \<and> \<not> store_raises e \<and> \<not> qr_raises e)"

definition quotes :: "env list \<Rightarrow> string \<Rightarrow> disk \<Rightarrow> disk" where
  "quotes es p d = fold (\<lambda>e d'. snd (log_exit e p d')) es d"

definition haunted :: ledger where
  "haunted = two_cars @ [parked 3 ''GJ05ZZ0007'' 2000 None]"

definition reachable :: "env \<Rightarrow> bool" where
  "reachable e = (fst (wait_for_db_unlock e) = Inr True \<and> \<not> store_raises e)"


definition one_left :: ledger where
  "one_left =
     [\<lparr> row_id = 1, plate = ''MH12AB1234'', entry_time = Std 1000,
        exit_time = Some (Std 1090), duration_min = Some 2, amount = Some 2,
        status = OUT, slot = Some ''A1'' \<rparr>,
      parked 2 ''KA01XY9999'' 1060 (Some ''A2'')]"

definition full_lot :: ledger where
  "full_lot = map (\<lambda>i. parked i (''P'' @ str_nat i) 1000 (Some (''A'' @ str_nat i)))
                [1 ..< TOTAL_SLOTS + 1]"


section \<open>Slot allocation\<close>

lemma SLOT_LABELS_eq:
  "SLOT_LABELS = [''A1'', ''A2'', ''A3'', ''A4'', ''A5'', ''A6'', ''A7'', ''A8'', ''A9'',
                  ''A10'', ''A11'', ''A12'', ''A13'', ''A14'', ''A15'']"
  by code_simp

lemma first_free_Some:
  "first_free occ xs = Some s \<longleftrightarrow> (\<exists>ys zs. xs = ys @ s # zs \<and> set ys \<subseteq> occ \<and> s \<notin> occ)"
proof (induction xs)
  case Nil
  then show ?case by simp
next
  case (Cons x xs)
  show ?case
  proof (cases "x \<in> occ")
    case True
    have "(\<exists>ys zs. x # xs = ys @ s # zs \<and> set ys \<subseteq> occ \<and> s \<notin> occ)
          \<longleftrightarrow> (\<exists>ys zs. xs = ys @ s # zs \<and> set ys \<subseteq> occ \<and> s \<notin> occ)"
      (is "?A \<longleftrightarrow> ?B")
    proof
      assume ?A
      then obtain ys zs where h: "x # xs = ys @ s # zs" "set ys \<subseteq> occ" "s \<notin> occ" by blast
      with True have "ys \<noteq> []" by (cases ys) auto
      then obtain y ys' where "ys = y # ys'" by (cases ys) auto
      with h show ?B by auto
    next
      assume ?B
      then obtain ys zs where h: "xs = ys @ s # zs" "set ys \<subseteq> occ" "s \<notin> occ" by blast
      then have "x # xs = (x # ys) @ s # zs \<and> set (x # ys) \<subseteq> occ \<and> s \<notin> occ"
        using True by simp
      then show ?A by blast
    qed
    with True Cons show ?thesis by simp
  next
    case False
    have "(\<exists>ys zs. x # xs = ys @ s # zs \<and> set ys \<subseteq> occ \<and> s \<notin> occ) \<longleftrightarrow> x = s"
    proof
      assume "\<exists>ys zs. x # xs = ys @ s # zs \<and> set ys \<subseteq> occ \<and> s \<notin> occ"
      then obtain ys zs where h: "x # xs = ys @ s # zs" "set ys \<subseteq> occ" "s \<notin> occ" by blast
      show "x = s"
      proof (cases ys)
        case Nil
        with h show ?thesis by simp
      next
        case (Cons y ys')
        with h False show ?thesis by auto
      qed
    next
      assume "x = s"
      then have "x # xs = [] @ s # xs \<and> set [] \<subseteq> occ \<and> s \<notin> occ" using False by simp
      then show "\<exists>ys zs. x # xs = ys @ s # zs \<and> set ys \<subseteq> occ \<and> s \<notin> occ" by blast
    qed
    with False show ?thesis by auto
  qed
qed

lemma first_free_None: "first_free occ xs = None \<longleftrightarrow> set xs \<subseteq> occ"
  by (induction xs) auto

lemma occupied_iff:
  "s \<in> get_occupied_slots L \<longleftrightarrow> s \<noteq> [] \<and> (\<exists>r \<in> set L. status r = IN \<and> slot r = Some s)"
proof
  assume "s \<in> get_occupied_slots L"
  then obtain r where r: "r \<in> set L" "status r = IN" "truthy (slot r)" "s = the (slot r)"
    unfolding get_occupied_slots_def by auto
  from r(3) obtain t where "slot r = Some t" "t \<noteq> []"
    by (cases "slot r") (simp_all add: truthy_def)
  with r show "s \<noteq> [] \<and> (\<exists>r \<in> set L. status r = IN \<and> slot r = Some s)" by auto
next
  assume "s \<noteq> [] \<and> (\<exists>r \<in> set L. status r = IN \<and> slot r = Some s)"
  then obtain r where r: "s \<noteq> []" "r \<in> set L" "status r = IN" "slot r = Some s" by blast
  then have "truthy (slot r)" "the (slot r) = s" by (simp_all add: truthy_def)
  with r have "s \<in> (\<lambda>r. the (slot r)) ` {r \<in> set L. status r = IN \<and> truthy (slot r)}"
    by (intro image_eqI[where x = r]) simp_all
  then show "s \<in> get_occupied_slots L"
    unfolding get_occupied_slots_def by (simp add: conj_commute Collect_conj_eq)
qed

lemma labels_nonempty: "s \<in> set SLOT_LABELS \<Longrightarrow> s \<noteq> []"
  by (auto simp: SLOT_LABELS_eq)

text \<open>
  Claim C6. \<open>find_next_available_slot\<close> scans the fixed list A1, ..., A15 and returns
  the first label that no row with status IN references: it returns \<open>Some s\<close> exactly when
  \<open>s\<close> is a label of the list, every label before it is the slot of some IN row and no
  IN row has slot \<open>s\<close>; rows with status OUT do not count. It returns \<open>None\<close> exactly when
  each of the fifteen labels is the slot of some IN row. The occupied set of the code is
  the set of non-empty slots of the IN rows, and two ledgers with the same occupied set get
  the same answer.
\<close>

theorem allocate_first_free:
  "find_next_available_slot L =
     first_free (get_occupied_slots L)
       [''A1'', ''A2'', ''A3'', ''A4'', ''A5'', ''A6'', ''A7'', ''A8'', ''A9'',
        ''A10'', ''A11'', ''A12'', ''A13'', ''A14'', ''A15'']
   \<and> (\<forall>s. s \<in> get_occupied_slots L \<longleftrightarrow>
          s \<noteq> [] \<and> (\<exists>r \<in> set L. status r = IN \<and> slot r = Some s))
   \<and> (\<forall>s. find_next_available_slot L = Some s \<longleftrightarrow>
          (\<exists>ys zs. SLOT_LABELS = ys @ s # zs
             \<and> (\<forall>l \<in> set ys. \<exists>r \<in> set L. status r = IN \<and> slot r = Some l)
             \<and> \<not> (\<exists>r \<in> set L. status r = IN \<and> slot r = Some s)))
   \<and> (\<forall>s. find_next_available_slot L = Some s \<longrightarrow>
          (\<exists>ys zs. SLOT_LABELS = ys @ s # zs \<and> set ys \<subseteq> get_occupied_slots L)
          \<and> s \<notin> get_occupied_slots L
          \<and> \<not> (\<exists>r \<in> set L. status r = IN \<and> slot r = Some s))
   \<and> (find_next_available_slot L = None \<longleftrightarrow>
          (\<forall>l \<in> set SLOT_LABELS. \<exists>r \<in> set L. status r = IN \<and> slot r = Some l))
   \<and> (find_next_available_slot L = None \<longleftrightarrow> set SLOT_LABELS \<subseteq> get_occupied_slots L)
   \<and> (get_occupied_slots L = get_occupied_slots L' \<longrightarrow>
          find_next_available_slot L = find_next_available_slot L')"
proof -
  have c1: "find_next_available_slot L =
     first_free (get_occupied_slots L)
       [''A1'', ''A2'', ''A3'', ''A4'', ''A5'', ''A6'', ''A7'', ''A8'', ''A9'',
        ''A10'', ''A11'', ''A12'', ''A13'', ''A14'', ''A15'']"
    by (simp only: find_next_available_slot_def SLOT_LABELS_eq)
  have c2: "\<forall>s. s \<in> get_occupied_slots L \<longleftrightarrow>
          s \<noteq> [] \<and> (\<exists>r \<in> set L. status r = IN \<and> slot r = Some s)"
    by (simp only: occupied_iff) simp
  have lab: "\<And>l. l \<in> set SLOT_LABELS \<Longrightarrow>
      (l \<in> get_occupied_slots L \<longleftrightarrow> (\<exists>r \<in> set L. status r = IN \<and> slot r = Some l))"
    by (simp add: occupied_iff labels_nonempty)
  have c3: "\<forall>s. find_next_available_slot L = Some s \<longleftrightarrow>
          (\<exists>ys zs. SLOT_LABELS = ys @ s # zs
             \<and> (\<forall>l \<in> set ys. \<exists>r \<in> set L. status r = IN \<and> slot r = Some l)
             \<and> \<not> (\<exists>r \<in> set L. status r = IN \<and> slot r = Some s))"
  proof (intro allI iffI)
    fix s assume "find_next_available_slot L = Some s"
    then obtain ys zs where h: "SLOT_LABELS = ys @ s # zs" "set ys \<subseteq> get_occupied_slots L"
      "s \<notin> get_occupied_slots L"
      unfolding find_next_available_slot_def first_free_Some by blast
    have "s \<in> set (ys @ s # zs)" "set ys \<subseteq> set (ys @ s # zs)" by auto
    then have m: "s \<in> set SLOT_LABELS" "set ys \<subseteq> set SLOT_LABELS"
      by (simp_all only: h(1))
    from m(1) h(3) have a: "\<not> (\<exists>r \<in> set L. status r = IN \<and> slot r = Some s)"
      using lab by blast
    have b: "\<forall>l \<in> set ys. \<exists>r \<in> set L. status r = IN \<and> slot r = Some l"
    proof
      fix l assume l: "l \<in> set ys"
      with m(2) have "l \<in> set SLOT_LABELS" by blast
      moreover from l h(2) have "l \<in> get_occupied_slots L" by blast
      ultimately show "\<exists>r \<in> set L. status r = IN \<and> slot r = Some l" using lab by blast
    qed
    from h(1) a b show "\<exists>ys zs. SLOT_LABELS = ys @ s # zs
             \<and> (\<forall>l \<in> set ys. \<exists>r \<in> set L. status r = IN \<and> slot r = Some l)
             \<and> \<not> (\<exists>r \<in> set L. status r = IN \<and> slot r = Some s)" by blast
  next
    fix s assume "\<exists>ys zs. SLOT_LABELS = ys @ s # zs
             \<and> (\<forall>l \<in> set ys. \<exists>r \<in> set L. status r = IN \<and> slot r = Some l)
             \<and> \<not> (\<exists>r \<in> set L. status r = IN \<and> slot r = Some s)"
    then obtain ys zs where h: "SLOT_LABELS = ys @ s # zs"
      "\<forall>l \<in> set ys. \<exists>r \<in> set L. status r = IN \<and> slot r = Some l"
      "\<not> (\<exists>r \<in> set L. status r = IN \<and> slot r = Some s)" by blast
    have "s \<in> set (ys @ s # zs)" "set ys \<subseteq> set (ys @ s # zs)" by auto
    then have m: "s \<in> set SLOT_LABELS" "set ys \<subseteq> set SLOT_LABELS"
      by (simp_all only: h(1))
    from h(3) have a: "s \<notin> get_occupied_slots L" by (simp add: occupied_iff)
    have b: "set ys \<subseteq> get_occupied_slots L"
    proof
      fix l assume l: "l \<in> set ys"
      with m(2) have "l \<in> set SLOT_LABELS" by blast
      moreover from l h(2) have "\<exists>r \<in> set L. status r = IN \<and> slot r = Some l" by blast
      ultimately show "l \<in> get_occupied_slots L" using lab by blast
    qed
    from h(1) a b have "\<exists>ys zs. SLOT_LABELS = ys @ s # zs \<and> set ys \<subseteq> get_occupied_slots L
        \<and> s \<notin> get_occupied_slots L" by blast
    then show "find_next_available_slot L = Some s"
      unfolding find_next_available_slot_def first_free_Some .
  qed
  have c4: "\<forall>s. find_next_available_slot L = Some s \<longrightarrow>
          (\<exists>ys zs. SLOT_LABELS = ys @ s # zs \<and> set ys \<subseteq> get_occupied_slots L)
          \<and> s \<notin> get_occupied_slots L
          \<and> \<not> (\<exists>r \<in> set L. status r = IN \<and> slot r = Some s)"
  proof (intro allI impI)
    fix s assume "find_next_available_slot L = Some s"
    then obtain ys zs where h: "SLOT_LABELS = ys @ s # zs" "set ys \<subseteq> get_occupied_slots L"
      "s \<notin> get_occupied_slots L"
      unfolding find_next_available_slot_def first_free_Some by blast
    have "s \<in> set (ys @ s # zs)" by simp
    then have "s \<in> set SLOT_LABELS" by (simp only: h(1))
    with h(3) have "\<not> (\<exists>r \<in> set L. status r = IN \<and> slot r = Some s)" using lab by blast
    with h show "(\<exists>ys zs. SLOT_LABELS = ys @ s # zs \<and> set ys \<subseteq> get_occupied_slots L)
          \<and> s \<notin> get_occupied_slots L
          \<and> \<not> (\<exists>r \<in> set L. status r = IN \<and> slot r = Some s)" by blast
  qed
  have c6: "find_next_available_slot L = None \<longleftrightarrow> set SLOT_LABELS \<subseteq> get_occupied_slots L"
    by (simp add: find_next_available_slot_def first_free_None)
  have c5: "find_next_available_slot L = None \<longleftrightarrow>
          (\<forall>l \<in> set SLOT_LABELS. \<exists>r \<in> set L. status r = IN \<and> slot r = Some l)"
    unfolding c6 using lab by blast
  have c7: "get_occupied_slots L = get_occupied_slots L' \<longrightarrow>
          find_next_available_slot L = find_next_available_slot L'"
    by (simp add: find_next_available_slot_def)
  from c1 c2 c3 c4 c5 c6 c7 show ?thesis by (intro conjI)
qed

lemma occupied_two_cars: "get_occupied_slots two_cars = {''A1'', ''A2''}"
  by (simp add: get_occupied_slots_def two_cars_def parked_def truthy_def)

lemma occupied_one_left: "get_occupied_slots one_left = {''A2''}"
  by (simp add: get_occupied_slots_def one_left_def parked_def truthy_def)

lemma occupied_full_lot: "get_occupied_slots full_lot = set SLOT_LABELS"
proof -
  have "map (\<lambda>r. the (slot r)) (filter (\<lambda>r. truthy (slot r)) (filter (\<lambda>r. status r = IN) full_lot))
      = SLOT_LABELS"
    by (simp add: full_lot_def SLOT_LABELS_def parked_def truthy_def filter_map comp_def)
  then show ?thesis by (simp only: get_occupied_slots_def)
qed

theorem allocate_first_free_witness:
  "find_next_available_slot two_cars = Some ''A3''
   \<and> find_next_available_slot one_left = Some ''A1''
   \<and> find_next_available_slot full_lot = None
   \<and> ''A3'' \<notin> get_occupied_slots two_cars
   \<and> \<not> (\<exists>r \<in> set two_cars. status r = IN \<and> slot r = Some ''A3'')
   \<and> (\<exists>r \<in> set one_left. status r = OUT \<and> slot r = Some ''A1'')
   \<and> (\<exists>ys zs. SLOT_LABELS = ys @ ''A3'' # zs \<and> set ys \<subseteq> get_occupied_slots two_cars)"
proof -
  note t2 = allocate_first_free [of two_cars two_cars]
  note t1 = allocate_first_free [of one_left one_left]
  note t0 = allocate_first_free [of full_lot full_lot]
  from t0 have "find_next_available_slot full_lot = None
      \<longleftrightarrow> set SLOT_LABELS \<subseteq> get_occupied_slots full_lot"
    by (elim conjE)
  then have c: "find_next_available_slot full_lot = None"
    by (simp only: occupied_full_lot subset_refl)
  from t2 have "find_next_available_slot two_cars =
     first_free (get_occupied_slots two_cars)
       [''A1'', ''A2'', ''A3'', ''A4'', ''A5'', ''A6'', ''A7'', ''A8'', ''A9'',
        ''A10'', ''A11'', ''A12'', ''A13'', ''A14'', ''A15'']" by (rule conjunct1)
  then have a: "find_next_available_slot two_cars = Some ''A3''"
    by (simp add: occupied_two_cars)
  from t1 have "find_next_available_slot one_left =
     first_free (get_occupied_slots one_left)
       [''A1'', ''A2'', ''A3'', ''A4'', ''A5'', ''A6'', ''A7'', ''A8'', ''A9'',
        ''A10'', ''A11'', ''A12'', ''A13'', ''A14'', ''A15'']" by (rule conjunct1)
  then have b: "find_next_available_slot one_left = Some ''A1''"
    by (simp add: occupied_one_left)
  have d: "\<exists>r \<in> set one_left. status r = OUT \<and> slot r = Some ''A1''"
    by (simp add: one_left_def)
  from t2 have "\<forall>s. find_next_available_slot two_cars = Some s \<longrightarrow>
          (\<exists>ys zs. SLOT_LABELS = ys @ s # zs \<and> set ys \<subseteq> get_occupied_slots two_cars)
          \<and> s \<notin> get_occupied_slots two_cars
          \<and> \<not> (\<exists>r \<in> set two_cars. status r = IN \<and> slot r = Some s)"
    by (elim conjE)
  with a have e: "(\<exists>ys zs. SLOT_LABELS = ys @ ''A3'' # zs \<and> set ys \<subseteq> get_occupied_slots two_cars)
          \<and> ''A3'' \<notin> get_occupied_slots two_cars
          \<and> \<not> (\<exists>r \<in> set two_cars. status r = IN \<and> slot r = Some ''A3'')"
    by (rule_tac mp, rule_tac spec)
  from e have e1: "\<exists>ys zs. SLOT_LABELS = ys @ ''A3'' # zs \<and> set ys \<subseteq> get_occupied_slots two_cars"
    by (rule conjunct1)
  from e have e2: "''A3'' \<notin> get_occupied_slots two_cars" by (elim conjE)
  from e have e3: "\<not> (\<exists>r \<in> set two_cars. status r = IN \<and> slot r = Some ''A3'')" by (elim conjE)
  from a b c e2 e3 d e1 show ?thesis by (intro conjI)
qed

section \<open>Billing and the three ledger operations\<close>






lemma wait_calm: "wait_for_db_unlock (calm t) = (Inr True, 0)"
  by (simp add: wait_for_db_unlock_def wait_for_db_unlock_n_def calm_def eval_nat_numeral)

lemma calm_simps: "store_raises (calm t) = False" "now (calm t) = t" "qr_raises (calm t) = False"
  by (simp_all add: calm_def)





lemma latest_two_cars: "latest_in two_cars ''MH12AB1234'' = Some (parked 1 ''MH12AB1234'' 1000 (Some ''A1''))"
  by (simp add: latest_in_def in_rows_def two_cars_def parked_def)







section \<open>The pending exit plate\<close>

lemma pending_emit [simp]: "pending_exit_plate (emit ev a) = pending_exit_plate a"
  by (simp add: emit_def)

lemma pending_broadcast [simp]:
  "pending_exit_plate (broadcast_logs_update a) = pending_exit_plate a"
  "pending_exit_plate (broadcast_slots_update a) = pending_exit_plate a"
  by (simp_all add: broadcast_logs_update_def broadcast_slots_update_def)

lemma pending_after_set: "pending_exit_plate (snd (set_pending_exit p a)) = Some p"
  by (simp add: set_pending_exit_def)

lemma pending_after_confirm:
  "pending_exit_plate (snd (api_confirm_exit e req a)) =
     (if truthy req \<and> fst (confirm_payment_and_exit e (the req) (store a)) = Inr True
         \<and> pending_exit_plate a = req
      then None else pending_exit_plate a)"
proof (cases "truthy req")
  case False
  then show ?thesis by (simp add: api_confirm_exit_def)
next
  case True
  then obtain p where p: "req = Some p" by (cases req) (simp_all add: truthy_def)
  obtain r d where c: "confirm_payment_and_exit e p (store a) = (r, d)" by (cases "confirm_payment_and_exit e p (store a)")
  show ?thesis
  proof (cases r)
    case (Inl x)
    with True p c show ?thesis by (simp add: api_confirm_exit_def)
  next
    case (Inr b)
    with True p c show ?thesis by (cases b) (simp_all add: api_confirm_exit_def Let_def)
  qed
qed

text \<open>
  Claim C8. The pending exit is one slot: \<open>set_pending_exit\<close> overwrites whatever was
  pending, \<open>get_pending_exit\<close> reads it without changing anything, and
  \<open>api_confirm_exit\<close> clears it only when the confirmation succeeded and the pending plate
  equals the confirmed plate. After setting A and then B, B is read back, and a
  confirmation for A leaves B pending.
\<close>

theorem pending_exit_slot:
  "pending_exit_plate (snd (set_pending_exit p a)) = Some p
   \<and> get_pending_exit a = ((Pending (pending_exit_plate a), 200), a)
   \<and> pending_exit_plate (snd (api_confirm_exit e req a)) =
       (if truthy req \<and> fst (confirm_payment_and_exit e (the req) (store a)) = Inr True
           \<and> pending_exit_plate a = req
        then None else pending_exit_plate a)
   \<and> fst (get_pending_exit (snd (set_pending_exit q (snd (set_pending_exit p a)))))
       = (Pending (Some q), 200)
   \<and> (p \<noteq> q \<longrightarrow>
        pending_exit_plate
          (snd (api_confirm_exit e (Some p) (snd (set_pending_exit q (snd (set_pending_exit p a))))))
        = Some q)"
proof (intro conjI impI)
  show "pending_exit_plate (snd (set_pending_exit p a)) = Some p" by (rule pending_after_set)
  show "get_pending_exit a = ((Pending (pending_exit_plate a), 200), a)"
    by (simp add: get_pending_exit_def)
  show "pending_exit_plate (snd (api_confirm_exit e req a)) =
       (if truthy req \<and> fst (confirm_payment_and_exit e (the req) (store a)) = Inr True
           \<and> pending_exit_plate a = req
        then None else pending_exit_plate a)"
    by (rule pending_after_confirm)
  show "fst (get_pending_exit (snd (set_pending_exit q (snd (set_pending_exit p a)))))
       = (Pending (Some q), 200)"
    by (simp add: get_pending_exit_def pending_after_set)
next
  assume "p \<noteq> q"
  then show "pending_exit_plate
          (snd (api_confirm_exit e (Some p) (snd (set_pending_exit q (snd (set_pending_exit p a))))))
        = Some q"
    by (simp add: pending_after_confirm pending_after_set)
qed

lemma confirm_A:
  "fst (confirm_payment_and_exit (calm 1090000000) ''A'' \<lparr> table = ab_cars, images = Map.empty \<rparr>) = Inr True"
  by (simp add: confirm_payment_and_exit_def wait_calm calm_simps latest_in_def in_rows_def
      parse_entry_confirm_def ab_cars_def parked_def Let_def)

lemma store_set_pending [simp]: "store (snd (set_pending_exit p a)) = store a"
  by (simp add: set_pending_exit_def emit_def)

theorem pending_exit_slot_witness:
  "fst (api_confirm_exit (calm 1090000000) (Some ''A'')
          (snd (set_pending_exit ''B'' (snd (set_pending_exit ''A'' kiosk))))) = (Success, 200)
   \<and> pending_exit_plate
        (snd (api_confirm_exit (calm 1090000000) (Some ''A'')
          (snd (set_pending_exit ''B'' (snd (set_pending_exit ''A'' kiosk)))))) = Some ''B''
   \<and> fst (get_pending_exit (snd (set_pending_exit ''B'' (snd (set_pending_exit ''A'' kiosk)))))
        = (Pending (Some ''B''), 200)"
proof -
  have ne: "''A'' \<noteq> ''B''" by simp
  note t = pending_exit_slot [where p = "''A''" and q = "''B''" and a = kiosk
      and e = "calm 1090000000" and req = "Some ''A''"]
  have s: "store kiosk = \<lparr> table = ab_cars, images = Map.empty \<rparr>" by (simp add: kiosk_def)
  obtain d where c: "confirm_payment_and_exit (calm 1090000000) ''A'' (store kiosk) = (Inr True, d)"
    using confirm_A by (cases "confirm_payment_and_exit (calm 1090000000) ''A'' (store kiosk)") (simp add: s)
  have "fst (api_confirm_exit (calm 1090000000) (Some ''A'')
          (snd (set_pending_exit ''B'' (snd (set_pending_exit ''A'' kiosk))))) = (Success, 200)"
    by (simp add: api_confirm_exit_def truthy_def c Let_def)
  with t ne show ?thesis by blast
qed

section \<open>Frame properties of the operations\<close>

lemma healthy_calm: "healthy (calm t)"
  by (simp add: healthy_def wait_calm calm_simps)

lemma log_exit_table: "table (snd (log_exit e p d)) = table d"
  by (simp add: log_exit_def Let_def split: sum.splits bool.splits option.splits)

lemma quotes_table: "table (quotes es p d) = table d"
  unfolding quotes_def
  by (induction es arbitrary: d) (simp_all add: log_exit_table)

lemma log_exit_healthy:
  assumes "healthy e" "latest_in (table d) p = Some r" "parse_entry_exit (entry_time r) = Some t"
  shows "\<exists>q. fst (log_exit e p d) = Inr (Info q) \<and> q_duration_min q = duration_of t (now e)
           \<and> q_amount q = amount_of (duration_of t (now e))
           \<and> q_exit_time q = strftime (now e) \<and> q_entry_time q = entry_time r"
  using assms by (simp add: log_exit_def healthy_def Let_def)

text \<open>
  Claim C7. \<open>log_exit\<close> leaves the table as it is, whatever it returns: no row is
  created and no field of any row, in particular no status and no exit time, changes;
  the same holds after any number of calls. Whenever the plate has an open stay with a
  readable entry time and the store and the QR library work, a further call returns a
  quote computed against the clock of that call.
\<close>

theorem quote_leaves_ledger:
  "table (snd (log_exit e p d)) = table d
   \<and> table (quotes es p d) = table d
   \<and> (\<forall>r t. healthy e \<and> latest_in (table d) p = Some r
            \<and> parse_entry_exit (entry_time r) = Some t \<longrightarrow>
         (\<exists>q. fst (log_exit e p (quotes es p d)) = Inr (Info q)
            \<and> q_duration_min q = duration_of t (now e)
            \<and> q_amount q = amount_of (duration_of t (now e))
            \<and> q_exit_time q = strftime (now e)
            \<and> latest_in (table (snd (log_exit e p (quotes es p d)))) p = Some r))"
proof (intro conjI allI impI)
  show "table (snd (log_exit e p d)) = table d" by (rule log_exit_table)
  show "table (quotes es p d) = table d" by (rule quotes_table)
next
  fix r t
  assume a: "healthy e \<and> latest_in (table d) p = Some r
            \<and> parse_entry_exit (entry_time r) = Some t"
  then have l: "latest_in (table (quotes es p d)) p = Some r" by (simp add: quotes_table)
  from a l log_exit_healthy [of e "quotes es p d" p r t]
  obtain q where "fst (log_exit e p (quotes es p d)) = Inr (Info q)"
      "q_duration_min q = duration_of t (now e)"
      "q_amount q = amount_of (duration_of t (now e))"
      "q_exit_time q = strftime (now e)"
    by blast
  moreover have "latest_in (table (snd (log_exit e p (quotes es p d)))) p = Some r"
    using a by (simp add: log_exit_table quotes_table)
  ultimately show "\<exists>q. fst (log_exit e p (quotes es p d)) = Inr (Info q)
            \<and> q_duration_min q = duration_of t (now e)
            \<and> q_amount q = amount_of (duration_of t (now e))
            \<and> q_exit_time q = strftime (now e)
            \<and> latest_in (table (snd (log_exit e p (quotes es p d)))) p = Some r"
    by blast
qed

theorem quote_leaves_ledger_witness:
  "table (quotes [calm 1030000000, calm 1061000000] ''MH12AB1234'' lot) = two_cars
   \<and> (\<exists>q. fst (log_exit (calm 1090000000) ''MH12AB1234''
                 (quotes [calm 1030000000, calm 1061000000] ''MH12AB1234'' lot)) = Inr (Info q)
          \<and> q_duration_min q = 2 \<and> q_amount q = 2 \<and> q_exit_time q = Std 1090)"
proof -
  note t = quote_leaves_ledger [where e = "calm 1090000000" and p = "''MH12AB1234''" and d = lot
      and es = "[calm 1030000000, calm 1061000000]"]
  have l: "latest_in (table lot) ''MH12AB1234'' = Some (parked 1 ''MH12AB1234'' 1000 (Some ''A1''))"
    by (simp add: lot_def latest_two_cars)
  have p: "parse_entry_exit (entry_time (parked 1 ''MH12AB1234'' 1000 (Some ''A1''))) = Some 1000000000"
    by (simp add: parse_entry_exit_def parked_def)
  have d: "duration_of 1000000000 (now (calm 1090000000)) = 2"
    by (simp add: duration_of_def ceil_div_def calm_simps)
  have s: "strftime (now (calm 1090000000)) = Std 1090" by (simp add: strftime_def calm_simps)
  have a: "amount_of 2 = 2" by (simp add: amount_of_def RATE_PER_MIN_def)
  have "table lot = two_cars" by (simp add: lot_def)
  with t healthy_calm [of 1090000000] l p d s a show ?thesis by (metis (no_types, lifting))
qed

section \<open>Entry logging\<close>






lemma log_entry_already:
  assumes "in_rows (table d) p \<noteq> []"
  shows "snd (log_entry e p d) = d"
    "fst (wait_for_db_unlock e) = Inr True \<and> \<not> store_raises e
       \<Longrightarrow> fst (log_entry e p d) = Inr ''already_in''"
  using assms
  by (auto simp: log_entry_def split: sum.splits bool.splits if_splits option.splits)



lemma find_two_cars: "find_next_available_slot two_cars = Some ''A3''"
  by (simp add: find_next_available_slot_def occupied_two_cars SLOT_LABELS_eq)



section \<open>Rows without a slot\<close>

lemma update_keys:
  "map fst (map (\<lambda>(k, v). if k = s then (k, Some p) else (k, v)) slots) = map fst slots"
  by (induction slots) auto

lemma assign_slots_keys: "map fst (assign_slots slots rs) = map fst slots"
proof (induction rs arbitrary: slots)
  case Nil
  show ?case by simp
next
  case (Cons r rs)
  let ?s = "case slot r of
          None \<Rightarrow> slots
        | Some s \<Rightarrow> if s \<in> fst ` set slots
                    then map (\<lambda>(k, v). if k = s then (k, Some (plate r)) else (k, v)) slots
                    else slots"
  have "map fst (assign_slots slots (r # rs)) = map fst ?s"
    using Cons.IH [of ?s] by simp
  also have "map fst ?s = map fst slots"
  proof (cases "slot r")
    case None
    then show ?thesis by simp
  next
    case (Some s)
    show ?thesis
    proof (cases "s \<in> fst ` set slots")
      case True
      with Some show ?thesis by (simp only: option.case if_True update_keys)
    next
      case False
      with Some show ?thesis by simp
    qed
  qed
  finally show ?case .
qed

lemma assign_slots_skip:
  assumes "\<not> truthy (slot r)" "[] \<notin> fst ` set slots"
  shows "assign_slots slots (xs @ r # ys) = assign_slots slots (xs @ ys)"
  using assms(2)
proof (induction xs arbitrary: slots)
  case Nil
  from assms(1) have "slot r = None \<or> slot r = Some []"
    by (cases "slot r") (simp_all add: truthy_def)
  with Nil show ?case by auto
next
  case (Cons x xs)
  let ?s = "case slot x of
          None \<Rightarrow> slots
        | Some s \<Rightarrow> if s \<in> fst ` set slots
                    then map (\<lambda>(k, v). if k = s then (k, Some (plate x)) else (k, v)) slots
                    else slots"
  have "map fst ?s = map fst slots"
    using assign_slots_keys [of slots "[x]"] by simp
  then have "fst ` set ?s = fst ` set slots" by (metis set_map)
  with Cons.prems have "[] \<notin> fst ` set ?s" by simp
  from Cons.IH [OF this] show ?case by simp
qed

lemma assign_slots_values:
  "(k, Some p) \<in> set (assign_slots slots rs) \<Longrightarrow>
     (k, Some p) \<in> set slots \<or> (\<exists>r \<in> set rs. plate r = p \<and> slot r = Some k)"
proof (induction rs arbitrary: slots)
  case Nil
  then show ?case by simp
next
  case (Cons x xs)
  let ?s = "case slot x of
          None \<Rightarrow> slots
        | Some s \<Rightarrow> if s \<in> fst ` set slots
                    then map (\<lambda>(k, v). if k = s then (k, Some (plate x)) else (k, v)) slots
                    else slots"
  from Cons.prems have "(k, Some p) \<in> set (assign_slots ?s xs)" by simp
  from Cons.IH [OF this] consider "(k, Some p) \<in> set ?s"
    | "\<exists>r \<in> set xs. plate r = p \<and> slot r = Some k" by blast
  then show ?case
  proof cases
    case 1
    then have "(k, Some p) \<in> set slots \<or> (plate x = p \<and> slot x = Some k)"
      by (cases "slot x") (auto split: if_splits)
    then show ?thesis by auto
  next
    case 2
    then show ?thesis by auto
  qed
qed

lemma fetch_skip:
  assumes "\<not> truthy (slot r)"
  shows "fetch_current_slots (L1 @ r # L2) = fetch_current_slots (L1 @ L2)"
proof (cases "status r = IN")
  case True
  have "[] \<notin> fst ` set (map (\<lambda>label. (label, None :: string option)) SLOT_LABELS)"
    using labels_nonempty by force
  from assign_slots_skip [OF assms this] True show ?thesis
    by (simp add: fetch_current_slots_def)
next
  case False
  then show ?thesis by (simp add: fetch_current_slots_def)
qed

lemma occupied_skip:
  assumes "\<not> truthy (slot r)"
  shows "get_occupied_slots (L1 @ r # L2) = get_occupied_slots (L1 @ L2)"
proof (rule set_eqI)
  fix s
  have "\<not> (s \<noteq> [] \<and> slot r = Some s)" using assms by (auto simp: truthy_def)
  then show "s \<in> get_occupied_slots (L1 @ r # L2) \<longleftrightarrow> s \<in> get_occupied_slots (L1 @ L2)"
    unfolding occupied_iff by auto
qed

lemma fetch_shows_plate:
  assumes "(k, Some p) \<in> set (fetch_current_slots L)"
  shows "\<exists>r \<in> set L. status r = IN \<and> plate r = p \<and> slot r = Some k"
proof -
  from assms assign_slots_values [of k p "map (\<lambda>label. (label, None)) SLOT_LABELS"
      "filter (\<lambda>r. status r = IN) L"]
  have "(k, Some p) \<in> set (map (\<lambda>label. (label, None)) SLOT_LABELS)
      \<or> (\<exists>r \<in> set (filter (\<lambda>r. status r = IN) L). plate r = p \<and> slot r = Some k)"
    by (simp only: fetch_current_slots_def)
  then show ?thesis by auto
qed

text \<open>
  Claim C10. An IN row whose slot is NULL (or the empty text) does not count in the slot
  accounting: removing it from the table changes neither the occupied set, nor the slot
  that \<open>find_next_available_slot\<close> returns, nor the occupancy map; the map shows its plate
  only where another IN row of the same plate holds a slot. The row still is an IN row
  of its plate, so \<open>log_entry\<close> for that plate changes nothing and, when the store is
  reachable, answers \<open>already_in\<close>.
\<close>

theorem slotless_row_invisible:
  "status r = IN \<and> \<not> truthy (slot r) \<longrightarrow>
     get_occupied_slots (L1 @ r # L2) = get_occupied_slots (L1 @ L2)
     \<and> find_next_available_slot (L1 @ r # L2) = find_next_available_slot (L1 @ L2)
     \<and> fetch_current_slots (L1 @ r # L2) = fetch_current_slots (L1 @ L2)
     \<and> (\<forall>k. (k, Some (plate r)) \<in> set (fetch_current_slots (L1 @ r # L2)) \<longrightarrow>
            (\<exists>r' \<in> set (L1 @ L2). status r' = IN \<and> plate r' = plate r \<and> slot r' = Some k))
     \<and> snd (log_entry e (plate r) \<lparr>table = L1 @ r # L2, images = im\<rparr>)
         = \<lparr>table = L1 @ r # L2, images = im\<rparr>
     \<and> (fst (wait_for_db_unlock e) = Inr True \<and> \<not> store_raises e \<longrightarrow>
          fst (log_entry e (plate r) \<lparr>table = L1 @ r # L2, images = im\<rparr>) = Inr ''already_in'')"
proof (intro impI)
  assume a: "status r = IN \<and> \<not> truthy (slot r)"
  then have nt: "\<not> truthy (slot r)" by simp
  have o: "get_occupied_slots (L1 @ r # L2) = get_occupied_slots (L1 @ L2)"
    by (rule occupied_skip [OF nt])
  have f: "fetch_current_slots (L1 @ r # L2) = fetch_current_slots (L1 @ L2)"
    by (rule fetch_skip [OF nt])
  have ne: "in_rows (table \<lparr>table = L1 @ r # L2, images = im\<rparr>) (plate r) \<noteq> []"
    using a by (simp add: in_rows_def filter_empty_conv)
  show "get_occupied_slots (L1 @ r # L2) = get_occupied_slots (L1 @ L2)
     \<and> find_next_available_slot (L1 @ r # L2) = find_next_available_slot (L1 @ L2)
     \<and> fetch_current_slots (L1 @ r # L2) = fetch_current_slots (L1 @ L2)
     \<and> (\<forall>k. (k, Some (plate r)) \<in> set (fetch_current_slots (L1 @ r # L2)) \<longrightarrow>
            (\<exists>r' \<in> set (L1 @ L2). status r' = IN \<and> plate r' = plate r \<and> slot r' = Some k))
     \<and> snd (log_entry e (plate r) \<lparr>table = L1 @ r # L2, images = im\<rparr>)
         = \<lparr>table = L1 @ r # L2, images = im\<rparr>
     \<and> (fst (wait_for_db_unlock e) = Inr True \<and> \<not> store_raises e \<longrightarrow>
          fst (log_entry e (plate r) \<lparr>table = L1 @ r # L2, images = im\<rparr>) = Inr ''already_in'')"
  proof (intro conjI allI impI)
    show "get_occupied_slots (L1 @ r # L2) = get_occupied_slots (L1 @ L2)" by (rule o)
    show "find_next_available_slot (L1 @ r # L2) = find_next_available_slot (L1 @ L2)"
      by (simp only: find_next_available_slot_def o)
    show "fetch_current_slots (L1 @ r # L2) = fetch_current_slots (L1 @ L2)" by (rule f)
    show "snd (log_entry e (plate r) \<lparr>table = L1 @ r # L2, images = im\<rparr>)
         = \<lparr>table = L1 @ r # L2, images = im\<rparr>"
      by (rule log_entry_already(1) [OF ne])
  next
    fix k assume "(k, Some (plate r)) \<in> set (fetch_current_slots (L1 @ r # L2))"
    then have "(k, Some (plate r)) \<in> set (fetch_current_slots (L1 @ L2))" by (simp only: f)
    then show "\<exists>r' \<in> set (L1 @ L2). status r' = IN \<and> plate r' = plate r \<and> slot r' = Some k"
      by (rule fetch_shows_plate)
  next
    assume "fst (wait_for_db_unlock e) = Inr True \<and> \<not> store_raises e"
    then show "fst (log_entry e (plate r) \<lparr>table = L1 @ r # L2, images = im\<rparr>) = Inr ''already_in''"
      by (rule log_entry_already(2) [OF ne])
  qed
qed

theorem slotless_row_invisible_witness:
  "get_occupied_slots haunted = {''A1'', ''A2''}
   \<and> find_next_available_slot haunted = Some ''A3''
   \<and> fetch_current_slots haunted = fetch_current_slots two_cars
   \<and> log_entry (calm 2000000000) ''GJ05ZZ0007'' \<lparr>table = haunted, images = Map.empty\<rparr>
       = (Inr ''already_in'', \<lparr>table = haunted, images = Map.empty\<rparr>)"
proof -
  let ?r = "parked 3 ''GJ05ZZ0007'' 2000 None"
  note t = slotless_row_invisible [where r = ?r and ?L1.0 = two_cars and ?L2.0 = "[]"
      and e = "calm 2000000000" and im = Map.empty]
  have h: "two_cars @ [?r] = haunted" by (simp add: haunted_def)
  have a: "status ?r = IN \<and> \<not> truthy (slot ?r)" by (simp add: parked_def truthy_def)
  have p: "plate ?r = ''GJ05ZZ0007''" by (simp add: parked_def)
  have w: "fst (wait_for_db_unlock (calm 2000000000)) = Inr True \<and> \<not> store_raises (calm 2000000000)"
    by (simp add: wait_calm calm_simps)
  from t a w have
    "get_occupied_slots (two_cars @ [?r]) = get_occupied_slots two_cars"
    "find_next_available_slot (two_cars @ [?r]) = find_next_available_slot two_cars"
    "fetch_current_slots (two_cars @ [?r]) = fetch_current_slots two_cars"
    "snd (log_entry (calm 2000000000) (plate ?r) \<lparr>table = two_cars @ [?r], images = Map.empty\<rparr>)
       = \<lparr>table = two_cars @ [?r], images = Map.empty\<rparr>"
    "fst (log_entry (calm 2000000000) (plate ?r) \<lparr>table = two_cars @ [?r], images = Map.empty\<rparr>)
       = Inr ''already_in''"
    by simp_all
  then show ?thesis
    by (simp only: h p occupied_two_cars find_two_cars prod_eq_iff fst_conv snd_conv)
qed

section \<open>Payment confirmation\<close>




lemma confirm_null_exit:
  assumes "reachable e" "latest_in (table d) p = Some r" "exit_time r = None" "entry_time r = Std t"
  shows "confirm_payment_and_exit e p d =
     (Inr True, d\<lparr>table := close_row (row_id r) (strftime (now e))
                       (duration_of (t * 1000000) (now e))
                       (amount_of (duration_of (t * 1000000) (now e))) (table d)\<rparr>)"
  using assms
  by (simp add: confirm_payment_and_exit_def reachable_def parse_entry_confirm_def Let_def)

lemma confirm_set_exit:
  assumes "reachable e" "latest_in (table d) p = Some r" "exit_time r \<noteq> None"
  shows "confirm_payment_and_exit e p d = (Inr True, d\<lparr>table := force_out (row_id r) (table d)\<rparr>)"
  using assms
  by (auto simp: confirm_payment_and_exit_def reachable_def)



















end
